theory Spec2Isabelle
  imports Complex_Main "HOL-Library.AList" "HOL-Library.Dlist"
begin

section \<open>JavaScript numbers\<close>

text \<open>
  The values the metrics of \<^verbatim>\<open>compute_similarity.js\<close> compute with: a finite
  number, the two infinities, \<^verbatim>\<open>NaN\<close>, and \<^verbatim>\<open>undefined\<close> (what reading an empty
  array slot, an absent property or an omitted argument yields). A finite number is a
  real, and zero carries no sign (every zero divisor the code can reach is \<^verbatim>\<open>+0\<close>).
  The operators below are exact; \<open>js_fl\<close> brings an exact result into the range of a
  double. An arithmetic operator converts \<^verbatim>\<open>undefined\<close> to \<^verbatim>\<open>NaN\<close>.
\<close>

datatype jsnum = Undefined | NaN | PosInf | NegInf | Num real

fun js_add :: "jsnum \<Rightarrow> jsnum \<Rightarrow> jsnum" where
  "js_add (Num x) (Num y) = Num (x + y)"
| "js_add PosInf (Num y) = PosInf"
| "js_add (Num x) PosInf = PosInf"
| "js_add PosInf PosInf = PosInf"
| "js_add NegInf (Num y) = NegInf"
| "js_add (Num x) NegInf = NegInf"
| "js_add NegInf NegInf = NegInf"
| "js_add _ _ = NaN"

fun js_neg :: "jsnum \<Rightarrow> jsnum" where
  "js_neg (Num x) = Num (- x)"
| "js_neg PosInf = NegInf"
| "js_neg NegInf = PosInf"
| "js_neg _ = NaN"

definition js_sub :: "jsnum \<Rightarrow> jsnum \<Rightarrow> jsnum" where
  "js_sub a b = js_add a (js_neg b)"

fun js_mul :: "jsnum \<Rightarrow> jsnum \<Rightarrow> jsnum" where
  "js_mul (Num x) (Num y) = Num (x * y)"
| "js_mul PosInf (Num y) = (if y = 0 then NaN else if 0 < y then PosInf else NegInf)"
| "js_mul (Num x) PosInf = (if x = 0 then NaN else if 0 < x then PosInf else NegInf)"
| "js_mul NegInf (Num y) = (if y = 0 then NaN else if 0 < y then NegInf else PosInf)"
| "js_mul (Num x) NegInf = (if x = 0 then NaN else if 0 < x then NegInf else PosInf)"
| "js_mul PosInf PosInf = PosInf"
| "js_mul NegInf NegInf = PosInf"
| "js_mul PosInf NegInf = NegInf"
| "js_mul NegInf PosInf = NegInf"
| "js_mul _ _ = NaN"

fun js_div :: "jsnum \<Rightarrow> jsnum \<Rightarrow> jsnum" where
  "js_div (Num x) (Num y) =
     (if y = 0 then (if x = 0 then NaN else if 0 < x then PosInf else NegInf)
      else Num (x / y))"
| "js_div (Num x) PosInf = Num 0"
| "js_div (Num x) NegInf = Num 0"
| "js_div PosInf (Num y) = (if 0 \<le> y then PosInf else NegInf)"
| "js_div NegInf (Num y) = (if 0 \<le> y then NegInf else PosInf)"
| "js_div _ _ = NaN"

fun js_lt :: "jsnum \<Rightarrow> jsnum \<Rightarrow> bool" where
  "js_lt (Num x) (Num y) = (x < y)"
| "js_lt NegInf (Num y) = True"
| "js_lt NegInf PosInf = True"
| "js_lt (Num x) PosInf = True"
| "js_lt _ _ = False"

fun is_nan :: "jsnum \<Rightarrow> bool" where
  "is_nan Undefined = True"
| "is_nan NaN = True"
| "is_nan _ = False"

text \<open>\<^verbatim>\<open>Math.min\<close> of two arguments; of three it is applied twice.\<close>

definition js_min :: "jsnum \<Rightarrow> jsnum \<Rightarrow> jsnum" where
  "js_min a b = (if is_nan a \<or> is_nan b then NaN else if js_lt b a then b else a)"

text \<open>\<^verbatim>\<open>Math.abs\<close>, and \<^verbatim>\<open>a >= b\<close>, which is false when either side is \<^verbatim>\<open>NaN\<close>.\<close>

fun js_abs :: "jsnum \<Rightarrow> jsnum" where
  "js_abs (Num x) = Num \<bar>x\<bar>"
| "js_abs PosInf = PosInf"
| "js_abs NegInf = PosInf"
| "js_abs _ = NaN"

definition js_ge :: "jsnum \<Rightarrow> jsnum \<Rightarrow> bool" where
  "js_ge a b \<longleftrightarrow> \<not> is_nan a \<and> \<not> is_nan b \<and> \<not> js_lt a b"






text \<open>Every metric returns an object \<^verbatim>\<open>{ distance, similarity }\<close>.\<close>

record 'n result =
  distance :: 'n
  similarity :: 'n

datatype error = TypeError | RangeError

section \<open>The cached Damerau-Levenshtein engine\<close>

text \<open>
  A string is a sequence of code units, \<^typ>\<open>'c list\<close>. \<^verbatim>\<open>s.charAt(k)\<close> is the
  string of the one unit at \<open>k\<close>, or the empty string out of range.
\<close>

definition charAt :: "'c list \<Rightarrow> nat \<Rightarrow> 'c list" where
  "charAt s k = (if k < length s then [s ! k] else [])"

text \<open>
  The closure's \<^verbatim>\<open>matrix\<close> is an array of \<^verbatim>\<open>max\<close> row arrays. A row is a sparse
  JavaScript array: an index holds a value or nothing (\<^const>\<open>Undefined\<close> when read), and
  an assignment past its end extends it, so a row is a function from indices. Indexing
  the outer array at or past its length yields \<^verbatim>\<open>undefined\<close>, and indexing that
  throws a \<^verbatim>\<open>TypeError\<close>: each use of \<open>mget\<close> and \<open>mset\<close> below stands under a
  test that the row exists, and the other branch of the test is the throw.
\<close>

type_synonym row = "nat \<Rightarrow> jsnum"
type_synonym matrix = "row list"

definition mget :: "matrix \<Rightarrow> nat \<Rightarrow> nat \<Rightarrow> jsnum" where
  "mget m r c = (m ! r) c"

definition mset :: "matrix \<Rightarrow> nat \<Rightarrow> nat \<Rightarrow> jsnum \<Rightarrow> matrix" where
  "mset m r c v = m[r := (m ! r)(c := v)]"

text \<open>
  \<^verbatim>\<open>createDLFunction( maxLen )\<close>: \<^verbatim>\<open>max = ( maxLen || 60 ) + 1\<close>, so an omitted
  (\<^const>\<open>None\<close>) or zero \<^verbatim>\<open>maxLen\<close> means 60. \<^verbatim>\<open>new Array( max )\<close> throws a
  \<^verbatim>\<open>RangeError\<close> unless \<open>0 \<le> max < 2^32\<close>. The result is the state the returned
  closure owns: \<^verbatim>\<open>max\<close> rows of empty slots.
\<close>

definition effectiveMaxLen :: "int option \<Rightarrow> int" where
  "effectiveMaxLen maxLen = (case maxLen of None \<Rightarrow> 60 | Some n \<Rightarrow> if n = 0 then 60 else n)"

definition createDLFunction :: "int option \<Rightarrow> error + matrix" where
  "createDLFunction maxLen =
     (let max = effectiveMaxLen maxLen + 1
      in if max < 0 \<or> 4294967296 \<le> max then Inl RangeError
         else Inr (replicate (nat max) (\<lambda>_. Undefined)))"

text \<open>
  \<^verbatim>\<open>for ( i = 0; i < s2Len + 1; i += 1 ) matrix[ i ][ 0 ] = i;\<close> with \<open>n = s2Len + 1\<close>.
  The loop throws at the first row the matrix does not have; the writes made before
  stay in the matrix.
\<close>

function initFirstColumn :: "nat \<Rightarrow> nat \<Rightarrow> matrix \<Rightarrow> error option \<times> matrix" where
  "initFirstColumn i n m =
     (if i < n
      then (if i < length m then initFirstColumn (i + 1) n (mset m i 0 (Num (real i)))
            else (Some TypeError, m))
      else (None, m))"
  by pat_completeness auto
termination
  by (relation "measure (\<lambda>(i, n, m). n - i)") auto

text \<open>\<^verbatim>\<open>for ( j = 0; j < s1Len + 1; j += 1 ) matrix[ 0 ][ j ] = j;\<close> with \<open>n = s1Len + 1\<close>.\<close>

function initFirstRow :: "nat \<Rightarrow> nat \<Rightarrow> matrix \<Rightarrow> error option \<times> matrix" where
  "initFirstRow j n m =
     (if j < n
      then (if 0 < length m then initFirstRow (j + 1) n (mset m 0 j (Num (real j)))
            else (Some TypeError, m))
      else (None, m))"
  by pat_completeness auto
termination
  by (relation "measure (\<lambda>(j, n, m). n - j)") auto

text \<open>
  The body of the inner loop, for \<open>1 \<le> i\<close> and \<open>1 \<le> j\<close> (the loops start at 1). It
  indexes rows \<open>i\<close>, \<open>i - 1\<close> and \<open>i - 2\<close> only, and row \<open>i\<close> on each path before any
  write, so it throws, with the matrix unchanged, exactly when row \<open>i\<close> is missing.
\<close>

definition fillCell :: "'c list \<Rightarrow> 'c list \<Rightarrow> nat \<Rightarrow> nat \<Rightarrow> matrix \<Rightarrow> error option \<times> matrix" where
  "fillCell s1 s2 i j m =
     (if \<not> i < length m then (Some TypeError, m)
      else if charAt s2 (i - 1) = charAt s1 (j - 1)
      then (None, mset m i j (mget m (i - 1) (j - 1)))
      else
        let m1 = mset m i j
                   (js_min (js_min (js_add (mget m (i - 1) (j - 1)) (Num 1))
                                   (js_add (mget m i (j - 1)) (Num 1)))
                           (js_add (mget m (i - 1) j) (Num 1)))
        in if 1 < i \<and> 1 < j
              \<and> charAt s2 (i - 1) = charAt s1 (j - 2)
              \<and> charAt s2 (i - 2) = charAt s1 (j - 1)
              \<and> js_lt (mget m1 (i - 2) (j - 2)) (mget m1 i j)
           then (None, mset m1 i j (js_add (mget m1 (i - 2) (j - 2)) (Num 1)))
           else (None, m1))"

text \<open>\<^verbatim>\<open>for ( j = 1; j <= s1Len; j += 1 ) { ... }\<close>, started at \<open>j\<close>.\<close>

function fillRow :: "'c list \<Rightarrow> 'c list \<Rightarrow> nat \<Rightarrow> nat \<Rightarrow> matrix \<Rightarrow> error option \<times> matrix" where
  "fillRow s1 s2 i j m =
     (if j \<le> length s1
      then (case fillCell s1 s2 i j m of
              (Some e, m') \<Rightarrow> (Some e, m')
            | (None, m') \<Rightarrow> fillRow s1 s2 i (j + 1) m')
      else (None, m))"
  by pat_completeness auto
termination
  by (relation "measure (\<lambda>(s1, s2, i, j, m). Suc (length s1) - j)") auto

text \<open>\<^verbatim>\<open>for ( i = 1; i <= s2Len; i += 1 ) { ... }\<close>, started at \<open>i\<close>.\<close>

function fillMatrix :: "'c list \<Rightarrow> 'c list \<Rightarrow> nat \<Rightarrow> matrix \<Rightarrow> error option \<times> matrix" where
  "fillMatrix s1 s2 i m =
     (if i \<le> length s2
      then (case fillRow s1 s2 i 1 m of
              (Some e, m') \<Rightarrow> (Some e, m')
            | (None, m') \<Rightarrow> fillMatrix s1 s2 (i + 1) m')
      else (None, m))"
  by pat_completeness auto
termination
  by (relation "measure (\<lambda>(s1, s2, i, m). Suc (length s2) - i)") auto

declare initFirstColumn.simps [simp del] initFirstRow.simps [simp del]
  fillRow.simps [simp del] fillMatrix.simps [simp del]

text \<open>
  The function \<^verbatim>\<open>createDLFunction\<close> returns, with the matrix of its closure passed in
  and returned: a thrown error or the result, and the matrix as the call leaves it.
\<close>

definition dlFunction :: "matrix \<Rightarrow> 'c list \<Rightarrow> 'c list \<Rightarrow> (error + jsnum result) \<times> matrix" where
  "dlFunction matrix s1 s2 =
     (let s2Len = length s2; s1Len = length s1 in
      if s2Len = 0 then (Inr \<lparr>distance = Num (real s1Len), similarity = Num 0\<rparr>, matrix)
      else if s1Len = 0 then (Inr \<lparr>distance = Num (real s2Len), similarity = Num 0\<rparr>, matrix)
      else (case initFirstColumn 0 (s2Len + 1) matrix of
        (Some e, m1) \<Rightarrow> (Inl e, m1)
      | (None, m1) \<Rightarrow>
      (case initFirstRow 0 (s1Len + 1) m1 of
        (Some e, m2) \<Rightarrow> (Inl e, m2)
      | (None, m2) \<Rightarrow>
      (case fillMatrix s1 s2 1 m2 of
        (Some e, m3) \<Rightarrow> (Inl e, m3)
      | (None, m3) \<Rightarrow>
      if \<not> s2Len < length m3 then (Inl TypeError, m3)
      else (Inr \<lparr>distance = mget m3 s2Len s1Len,
                 similarity = js_sub (Num 1)
                    (js_div (mget m3 s2Len s1Len) (Num (real (max s1Len s2Len))))\<rparr>, m3)))))"

text \<open>An engine's history: the calls made to it so far, oldest first.\<close>

fun afterCalls :: "matrix \<Rightarrow> ('c list \<times> 'c list) list \<Rightarrow> matrix" where
  "afterCalls m [] = m"
| "afterCalls m ((s1, s2) # cs) = afterCalls (snd (dlFunction m s1 s2)) cs"


text \<open>
  The recurrence the loops implement, as a function of the cell: what the fill writes
  into \<^verbatim>\<open>matrix[ i ][ j ]\<close>. It is the restricted (optimal string alignment)
  recurrence: a transposition is only taken between the two units just read.
\<close>

function cellValue :: "'c list \<Rightarrow> 'c list \<Rightarrow> nat \<Rightarrow> nat \<Rightarrow> nat" where
  "cellValue s1 s2 i j =
     (if i = 0 then j
      else if j = 0 then i
      else if charAt s2 (i - 1) = charAt s1 (j - 1) then cellValue s1 s2 (i - 1) (j - 1)
      else
        let v = min (min (cellValue s1 s2 (i - 1) (j - 1) + 1) (cellValue s1 s2 i (j - 1) + 1))
                    (cellValue s1 s2 (i - 1) j + 1)
        in if 1 < i \<and> 1 < j
              \<and> charAt s2 (i - 1) = charAt s1 (j - 2)
              \<and> charAt s2 (i - 2) = charAt s1 (j - 1)
              \<and> cellValue s1 s2 (i - 2) (j - 2) < v
           then cellValue s1 s2 (i - 2) (j - 2) + 1
           else v)"
  by pat_completeness auto
termination
  by (relation "measure (\<lambda>(s1, s2, i, j). i + j)") auto

declare cellValue.simps [simp del]

definition dlDistance :: "'c list \<Rightarrow> 'c list \<Rightarrow> nat" where
  "dlDistance s1 s2 = cellValue s1 s2 (length s2) (length s1)"

text \<open>
  The loop invariant of the fill, when the inner loop is about to write cell \<open>(i, j)\<close>:
  the first column, the rows above \<open>i\<close> and the cells of row \<open>i\<close> left of \<open>j\<close> hold
  their values, whatever the matrix held when the call began.
\<close>

definition filled :: "'c list \<Rightarrow> 'c list \<Rightarrow> nat \<Rightarrow> nat \<Rightarrow> matrix \<Rightarrow> bool" where
  "filled s1 s2 i j m \<longleftrightarrow>
     (\<forall>r c. r \<le> length s2 \<and> c \<le> length s1 \<and> (r < i \<or> c = 0 \<or> (r = i \<and> c < j))
        \<longrightarrow> mget m r c = Num (real (cellValue s1 s2 r c)))"

text \<open>
  The source documents the returned distance as the minimum number of edits that
  transform \<^verbatim>\<open>s1\<close> to \<^verbatim>\<open>s2\<close>, an edit being a deletion, a substitution, an
  insertion, or a transposition of two adjacent characters. One such edit:
\<close>

inductive oneEdit :: "'c list \<Rightarrow> 'c list \<Rightarrow> bool" where
  deletion: "oneEdit (xs @ c # ys) (xs @ ys)"
| substitution: "oneEdit (xs @ c # ys) (xs @ d # ys)"
| insertion: "oneEdit (xs @ ys) (xs @ c # ys)"
| transposition: "oneEdit (xs @ a # b # ys) (xs @ b # a # ys)"

section \<open>Set metrics\<close>

text \<open>
  A JavaScript \<^verbatim>\<open>Set\<close> holds distinct elements in insertion order: a
  \<^typ>\<open>'a dlist\<close>, with \<^verbatim>\<open>size\<close>, \<^verbatim>\<open>has\<close> and \<^verbatim>\<open>forEach\<close> as
  \<^const>\<open>Dlist.length\<close>, \<^const>\<open>Dlist.member\<close> and \<^const>\<open>Dlist.fold\<close>. An omitted
  parameter is \<^const>\<open>None\<close>.
\<close>

definition jaccard :: "'a dlist \<Rightarrow> 'a dlist \<Rightarrow> jsnum result" where
  "jaccard sa sb =
     (let intersectSize =
            (if Dlist.length sa < Dlist.length sb
             then Dlist.fold (\<lambda>element n. if Dlist.member sb element then n + 1 else n) sa (0::nat)
             else Dlist.fold (\<lambda>element n. if Dlist.member sa element then n + 1 else n) sb 0);
          smlrty = js_div (Num (real intersectSize))
                     (Num (real (Dlist.length sa) + real (Dlist.length sb) - real intersectSize))
      in \<lparr>distance = js_sub (Num 1) smlrty, similarity = smlrty\<rparr>)"

definition tversky :: "'a dlist \<Rightarrow> 'a dlist \<Rightarrow> real option \<Rightarrow> real option \<Rightarrow> jsnum result" where
  "tversky sa sb alpha beta =
     (let a = (case alpha of None \<Rightarrow> 1 / 2 | Some x \<Rightarrow> x);
          b = (case beta of None \<Rightarrow> 1 / 2 | Some x \<Rightarrow> x);
          intersectSize =
            (if Dlist.length sa < Dlist.length sb
             then Dlist.fold (\<lambda>element n. if Dlist.member sb element then n + 1 else n) sa (0::nat)
             else Dlist.fold (\<lambda>element n. if Dlist.member sa element then n + 1 else n) sb 0);
          saMinusSBsize = real (Dlist.length sa) - real intersectSize;
          sbMinusSAsize = real (Dlist.length sb) - real intersectSize;
          smlrty = js_div (Num (real intersectSize))
                     (Num (real intersectSize + (a * saMinusSBsize) + (b * sbMinusSAsize)))
      in \<lparr>distance = js_sub (Num 1) smlrty, similarity = smlrty\<rparr>)"

text \<open>The elements of a set, for stating what the metrics compute.\<close>

definition elements :: "'a dlist \<Rightarrow> 'a set" where
  "elements s = set (list_of_dlist s)"

section \<open>Jaro-Winkler\<close>

text \<open>
  \<^verbatim>\<open>s[ i ]\<close> is the unit at \<open>i\<close>, or \<^verbatim>\<open>undefined\<close> (\<^const>\<open>None\<close>) out of range.
\<close>

definition charIndex :: "'c list \<Rightarrow> nat \<Rightarrow> 'c option" where
  "charIndex s i = (if i < length s then Some (s ! i) else None)"

text \<open>
  The prefix loop,
  \<^verbatim>\<open>for ( i = 0; i < pLimit; i += 1 ) { if ( s1[ i ] === s2[ i ] ) l += 1; else break; }\<close>
\<close>

function prefixLoop :: "'c list \<Rightarrow> 'c list \<Rightarrow> nat \<Rightarrow> nat \<Rightarrow> nat \<Rightarrow> nat" where
  "prefixLoop s1 s2 pLimit i l =
     (if i < pLimit
      then (if charIndex s1 i = charIndex s2 i then prefixLoop s1 s2 pLimit (i + 1) (l + 1)
            else l)
      else l)"
  by pat_completeness auto
termination
  by (relation "measure (\<lambda>(s1, s2, pLimit, i, l). pLimit - i)") auto

declare prefixLoop.simps [simp del]

text \<open>
  \<^verbatim>\<open>jaro\<close> is \<^verbatim>\<open>require( './jaro.js' )\<close>, which is not part of the file: it is a
  parameter here, returning an object of two numbers. The two tunables are any numbers,
  \<^verbatim>\<open>NaN\<close> and the infinities included, or \<^const>\<open>Undefined\<close> when omitted. With
  factors of at most 4 and 0.25 the arithmetic cannot overflow from finite operands.
\<close>

definition jaroWinkler ::
  "('c list \<Rightarrow> 'c list \<Rightarrow> jsnum result) \<Rightarrow> 'c list \<Rightarrow> 'c list \<Rightarrow> jsnum \<Rightarrow> jsnum
     \<Rightarrow> jsnum result" where
  "jaroWinkler jaro s1 s2 scalingFactor boostThreshold =
     (if s1 = s2 then \<lparr>distance = Num 0, similarity = Num 1\<rparr>
      else
        let sf0 = (if scalingFactor = Undefined then Num (1 / 10) else scalingFactor);
            bt0 = (if boostThreshold = Undefined then Num (7 / 10) else boostThreshold);
            sf = js_min (js_abs sf0) (Num (1 / 4));
            bt = js_min (js_abs bt0) (Num 1);
            ds = jaro s1 s2
        in if js_lt (similarity ds) bt then ds
           else
             let pLimit = min (min (length s1) (length s2)) 4;
                 l = prefixLoop s1 s2 pLimit 0 0;
                 smlrty = js_add (similarity ds)
                            (js_mul (js_mul (Num (real l)) sf) (js_sub (Num 1) (similarity ds)))
             in \<lparr>distance = js_sub (Num 1) smlrty, similarity = smlrty\<rparr>)"

text \<open>
  The specification's words for the three quantities of the boost: the scaling factor
  and the threshold after defaulting, absolute value if negative and cap, and the number
  of leading positions at which the strings agree, at most 4 and at most the shorter
  length.
\<close>

definition specScalingFactor :: "jsnum \<Rightarrow> jsnum" where
  "specScalingFactor scalingFactor =
     (let sf = (if scalingFactor = Undefined then Num (1 / 10) else scalingFactor);
          sf = (if js_lt sf (Num 0) then js_neg sf else sf)
      in if js_lt (Num (1 / 4)) sf then Num (1 / 4) else sf)"

definition specBoostThreshold :: "jsnum \<Rightarrow> jsnum" where
  "specBoostThreshold boostThreshold =
     (let bt = (if boostThreshold = Undefined then Num (7 / 10) else boostThreshold);
          bt = (if js_lt bt (Num 0) then js_neg bt else bt)
      in if js_lt (Num 1) bt then Num 1 else bt)"

definition specPrefixLength :: "'c list \<Rightarrow> 'c list \<Rightarrow> nat" where
  "specPrefixLength s1 s2 = length (takeWhile (\<lambda>(x, y). x = y) (take 4 (zip s1 s2)))"

section \<open>Bag-of-words cosine\<close>






text \<open>
  The specification's sums: a token absent from a vector weighs 0 there, and the sums
  run over the union of the two key sets.
\<close>

definition weight :: "(string \<times> jsnum) list \<Rightarrow> string \<Rightarrow> real" where
  "weight a w = (case map_of a w of Some (Num v) \<Rightarrow> v | _ \<Rightarrow> 0)"

definition dotProduct :: "(string \<times> jsnum) list \<Rightarrow> (string \<times> jsnum) list \<Rightarrow> real" where
  "dotProduct a b = (\<Sum>w \<in> fst ` set a \<union> fst ` set b. weight a w * weight b w)"


text \<open>
  Weights whose squares, products and sums stay within the range of a double: each
  weight is a number that is zero or at least \<open>2^-537\<close>, so that a product of two
  weights is zero or at least \<open>productFloor\<close> and does not underflow, and the sum of
  the squares is below \<open>sumCeiling\<close>, so that no sum overflows.
\<close>

definition weightInRange :: "real \<Rightarrow> bool" where
  "weightInRange v \<longleftrightarrow> v = 0 \<or> 1 / 2 ^ 537 \<le> v"

definition productFloor :: real where
  "productFloor = 1 / 2 ^ 1074"


definition numericWeights :: "(string \<times> jsnum) list \<Rightarrow> bool" where
  "numericWeights a \<longleftrightarrow>
     list_all (\<lambda>(w, v). case v of Num r \<Rightarrow> weightInRange r | _ \<Rightarrow> False) a"



section \<open>The fill computes the recurrence\<close>

lemma length_mset [simp]: "length (mset m r c v) = length m"
  by (simp add: mset_def)

lemma mget_mset [simp]:
  "r < length m \<Longrightarrow> mget (mset m r c v) r' c' = (if r' = r \<and> c' = c then v else mget m r' c')"
  by (auto simp add: mget_def mset_def nth_list_update)

lemma js_min_Num [simp]: "js_min (Num x) (Num y) = Num (min x y)"
  by (simp add: js_min_def min_def)

lemma initFirstColumn_length [simp]: "length (snd (initFirstColumn i n m)) = length m"
proof (induction i n m rule: initFirstColumn.induct)
  case (1 i n m)
  then show ?case by (subst initFirstColumn.simps) simp
qed

lemma initFirstColumn_ok:
  "n \<le> length m \<Longrightarrow> fst (initFirstColumn i n m) = None
     \<and> mget (snd (initFirstColumn i n m)) r c
         = (if c = 0 \<and> i \<le> r \<and> r < n then Num (real r) else mget m r c)"
proof (induction i n m rule: initFirstColumn.induct)
  case (1 i n m)
  show ?case
  proof (cases "i < n")
    case True
    with 1 show ?thesis by (subst (1 2) initFirstColumn.simps) auto
  next
    case False
    then show ?thesis by (subst (1 2) initFirstColumn.simps) auto
  qed
qed

lemma initFirstColumn_throws:
  "i \<le> length m \<Longrightarrow> length m < n \<Longrightarrow> fst (initFirstColumn i n m) = Some TypeError"
proof (induction i n m rule: initFirstColumn.induct)
  case (1 i n m)
  show ?case
  proof (cases "i < length m")
    case True
    with 1 show ?thesis by (subst initFirstColumn.simps) auto
  next
    case False
    with 1 show ?thesis by (subst initFirstColumn.simps) auto
  qed
qed

lemma initFirstRow_length [simp]: "length (snd (initFirstRow j n m)) = length m"
proof (induction j n m rule: initFirstRow.induct)
  case (1 j n m)
  then show ?case by (subst initFirstRow.simps) simp
qed

lemma initFirstRow_ok:
  "0 < length m \<Longrightarrow> fst (initFirstRow j n m) = None
     \<and> mget (snd (initFirstRow j n m)) r c
         = (if r = 0 \<and> j \<le> c \<and> c < n then Num (real c) else mget m r c)"
proof (induction j n m rule: initFirstRow.induct)
  case (1 j n m)
  show ?case
  proof (cases "j < n")
    case True
    with 1 show ?thesis by (subst (1 2) initFirstRow.simps) auto
  next
    case False
    then show ?thesis by (subst (1 2) initFirstRow.simps) auto
  qed
qed


lemma mset_mset [simp]: "mset (mset m r c a) r c b = mset m r c b"
  by (cases "r < length m") (simp_all add: mset_def list_update_beyond)

lemma filledD:
  "filled s1 s2 i j m \<Longrightarrow> r \<le> length s2 \<Longrightarrow> c \<le> length s1
     \<Longrightarrow> r < i \<or> c = 0 \<or> (r = i \<and> c < j)
     \<Longrightarrow> mget m r c = Num (real (cellValue s1 s2 r c))"
  by (simp add: filled_def)

lemma fillCell_ok:
  assumes f: "filled s1 s2 i j m"
    and i: "1 \<le> i" "i \<le> length s2" and j: "1 \<le> j" "j \<le> length s1"
    and m: "length s2 < length m"
  shows "fillCell s1 s2 i j m = (None, mset m i j (Num (real (cellValue s1 s2 i j))))"
proof -
  have a: "mget m (i - 1) (j - 1) = Num (real (cellValue s1 s2 (i - 1) (j - 1)))"
    using i j by (intro filledD [OF f]) auto
  have b: "mget m i (j - 1) = Num (real (cellValue s1 s2 i (j - 1)))"
    using i j by (intro filledD [OF f]) auto
  have c: "mget m (i - 1) j = Num (real (cellValue s1 s2 (i - 1) j))"
    using i j by (intro filledD [OF f]) auto
  have d: "mget m (i - 2) (j - 2) = Num (real (cellValue s1 s2 (i - 2) (j - 2)))"
    using i j by (intro filledD [OF f]) auto
  have im: "i < length m" using i m by simp
  have ij: "i \<noteq> 0" "j \<noteq> 0" using i j by auto
  show ?thesis
  proof (cases "charAt s2 (i - 1) = charAt s1 (j - 1)")
    case True
    have "cellValue s1 s2 i j = cellValue s1 s2 (i - 1) (j - 1)"
      using True ij by (subst cellValue.simps) simp
    then show ?thesis
      using True im a by (simp add: fillCell_def)
  next
    case False
    define v where "v = min (min (cellValue s1 s2 (i - 1) (j - 1) + 1) (cellValue s1 s2 i (j - 1) + 1))
                    (cellValue s1 s2 (i - 1) j + 1)"
    define t where "t \<longleftrightarrow> 1 < i \<and> 1 < j \<and> charAt s2 (i - 1) = charAt s1 (j - 2)
              \<and> charAt s2 (i - 2) = charAt s1 (j - 1)"
    define w where "w = cellValue s1 s2 (i - 2) (j - 2)"
    have cv: "cellValue s1 s2 i j = (if t \<and> w < v then w + 1 else v)"
      using False ij by (subst cellValue.simps) (simp add: v_def t_def w_def Let_def)
    have mn: "js_min (js_min (js_add (mget m (i - 1) (j - 1)) (Num 1))
                                   (js_add (mget m i (j - 1)) (Num 1)))
                           (js_add (mget m (i - 1) j) (Num 1)) = Num (real v)"
      unfolding a b c v_def by (simp add: min_def)
    have ne: "i - 2 \<noteq> i" using ij by arith
    have g1: "\<And>x. mget (mset m i j x) (i - 2) (j - 2) = Num (real w)"
      using im ne by (simp add: d w_def)
    have g2: "\<And>x. mget (mset m i j x) i j = x"
      using im by simp
    have fc: "fillCell s1 s2 i j m =
       (if t \<and> js_lt (Num (real w)) (Num (real v))
        then (None, mset m i j (js_add (Num (real w)) (Num 1)))
        else (None, mset m i j (Num (real v))))"
      unfolding fillCell_def Let_def mn g1 g2
      using False im by (simp add: t_def)
    show ?thesis unfolding fc cv by (simp add: add.commute)
  qed
qed

lemma filled_step:
  assumes "filled s1 s2 i j m" "i < length m"
  shows "filled s1 s2 i (j + 1) (mset m i j (Num (real (cellValue s1 s2 i j))))"
  using assms unfolding filled_def by (auto simp add: less_Suc_eq)

lemma filled_next_row:
  assumes "filled s1 s2 i j m" "length s1 < j"
  shows "filled s1 s2 (i + 1) 1 m"
  using assms unfolding filled_def by (auto simp add: less_Suc_eq)

lemma fillRow_ok:
  assumes "filled s1 s2 i j m" "1 \<le> i" "i \<le> length s2" "1 \<le> j" "length s2 < length m"
  shows "\<exists>m'. fillRow s1 s2 i j m = (None, m') \<and> length m' = length m
            \<and> filled s1 s2 (i + 1) 1 m'"
  using assms
proof (induction s1 s2 i j m rule: fillRow.induct)
  case (1 s1 s2 i j m)
  show ?case
  proof (cases "j \<le> length s1")
    case True
    let ?m1 = "mset m i j (Num (real (cellValue s1 s2 i j)))"
    have step: "fillCell s1 s2 i j m = (None, ?m1)"
      using "1.prems" True by (intro fillCell_ok) auto
    have "filled s1 s2 i (j + 1) ?m1"
      using "1.prems" by (intro filled_step) auto
    then have "\<exists>m'. fillRow s1 s2 i (j + 1) ?m1 = (None, m') \<and> length m' = length ?m1
            \<and> filled s1 s2 (i + 1) 1 m'"
      using "1.prems" True step by (intro "1.IH") auto
    then show ?thesis
      using True step by (subst fillRow.simps) simp
  next
    case False
    then have "filled s1 s2 (i + 1) 1 m"
      using "1.prems" by (intro filled_next_row [of s1 s2 i j]) auto
    then show ?thesis
      using False by (subst fillRow.simps) simp
  qed
qed

lemma fillMatrix_ok:
  assumes "filled s1 s2 i 1 m" "1 \<le> i" "length s2 < length m"
  shows "\<exists>m'. fillMatrix s1 s2 i m = (None, m') \<and> length m' = length m
            \<and> filled s1 s2 (length s2 + 1) 1 m'"
  using assms
proof (induction s1 s2 i m rule: fillMatrix.induct)
  case (1 s1 s2 i m)
  show ?case
  proof (cases "i \<le> length s2")
    case True
    obtain m1 where row: "fillRow s1 s2 i 1 m = (None, m1)" "length m1 = length m"
      "filled s1 s2 (i + 1) 1 m1"
      using fillRow_ok [of s1 s2 i 1 m] "1.prems" True by auto
    have "\<exists>m'. fillMatrix s1 s2 (i + 1) m1 = (None, m') \<and> length m' = length m1
            \<and> filled s1 s2 (length s2 + 1) 1 m'"
      using "1.prems" True row by (intro "1.IH") auto
    then show ?thesis
      using True row by (subst fillMatrix.simps) simp
  next
    case False
    then have "filled s1 s2 (length s2 + 1) 1 m"
      using "1.prems" unfolding filled_def by auto
    then show ?thesis
      using False by (subst fillMatrix.simps) simp
  qed
qed

lemma cellValue_0 [simp]: "cellValue s1 s2 0 j = j"
  by (simp add: cellValue.simps)

lemma cellValue_0' [simp]: "cellValue s1 s2 i 0 = i"
  by (simp add: cellValue.simps)

lemma dlFunction_result:
  assumes "s1 \<noteq> []" "s2 \<noteq> []" "length s2 < length m"
  shows "\<exists>m'. dlFunction m s1 s2 =
      (Inr \<lparr>distance = Num (real (dlDistance s1 s2)),
            similarity = Num (1 - real (dlDistance s1 s2) / real (max (length s1) (length s2)))\<rparr>, m')
      \<and> length m' = length m"
proof -
  define m1 where "m1 = snd (initFirstColumn 0 (length s2 + 1) m)"
  have p0: "length s2 + 1 \<le> length m"
    using assms(3) by simp
  have c: "initFirstColumn 0 (length s2 + 1) m = (None, m1)"
    using initFirstColumn_ok [OF p0, of 0]
    by (simp add: m1_def prod_eq_iff)
  have c1: "length m1 = length m"
    by (simp add: m1_def)
  have c2: "\<And>r c. mget m1 r c = (if c = 0 \<and> r < length s2 + 1 then Num (real r) else mget m r c)"
    using initFirstColumn_ok [OF p0, of 0] by (simp add: m1_def)
  define m2 where "m2 = snd (initFirstRow 0 (length s1 + 1) m1)"
  have p1: "0 < length m1"
    using assms(3) c1 by (cases m) auto
  have r: "initFirstRow 0 (length s1 + 1) m1 = (None, m2)"
    using initFirstRow_ok [OF p1, of 0 "length s1 + 1"]
    by (simp add: m2_def prod_eq_iff)
  have r1: "length m2 = length m"
    by (simp add: m2_def c1)
  have r2: "\<And>r c. mget m2 r c = (if r = 0 \<and> c < length s1 + 1 then Num (real c) else mget m1 r c)"
    using initFirstRow_ok [OF p1, of 0 "length s1 + 1"] by (simp add: m2_def)
  have "filled s1 s2 1 1 m2"
    unfolding filled_def by (auto simp add: r2 c2)
  then obtain m3 where f: "fillMatrix s1 s2 1 m2 = (None, m3)" "length m3 = length m"
    "filled s1 s2 (length s2 + 1) 1 m3"
    using fillMatrix_ok [of s1 s2 1 m2] assms r1 by auto
  have v: "mget m3 (length s2) (length s1) = Num (real (dlDistance s1 s2))"
    unfolding dlDistance_def by (intro filledD [OF f(3)]) auto
  have pos: "0 < max (length s1) (length s2)" using assms(1) by (cases s1) auto
  show ?thesis
    using assms c r f v pos by (simp add: dlFunction_def js_sub_def)
qed


lemma fillCell_length [simp]: "length (snd (fillCell s1 s2 i j m)) = length m"
  by (simp add: fillCell_def Let_def)

lemma fillRow_length [simp]: "length (snd (fillRow s1 s2 i j m)) = length m"
proof (induction s1 s2 i j m rule: fillRow.induct)
  case (1 s1 s2 i j m)
  show ?case
  proof (cases "j \<le> length s1")
    case True
    obtain e m' where c: "fillCell s1 s2 i j m = (e, m')"
      by (cases "fillCell s1 s2 i j m")
    have l: "length m' = length m"
      using fillCell_length [of s1 s2 i j m] by (simp only: c snd_conv)
    show ?thesis
    proof (cases e)
      case None
      then show ?thesis
        using True c l "1.IH" by (subst fillRow.simps) auto
    next
      case (Some a)
      then show ?thesis
        using True c l by (subst fillRow.simps) simp
    qed
  next
    case False
    then show ?thesis by (subst fillRow.simps) simp
  qed
qed

lemma fillMatrix_length [simp]: "length (snd (fillMatrix s1 s2 i m)) = length m"
proof (induction s1 s2 i m rule: fillMatrix.induct)
  case (1 s1 s2 i m)
  show ?case
  proof (cases "i \<le> length s2")
    case True
    obtain e m' where c: "fillRow s1 s2 i 1 m = (e, m')"
      by (cases "fillRow s1 s2 i 1 m")
    have l: "length m' = length m"
      using fillRow_length [of s1 s2 i 1 m] by (simp only: c snd_conv)
    show ?thesis
    proof (cases e)
      case None
      then show ?thesis
        using True c l "1.IH" by (subst fillMatrix.simps) auto
    next
      case (Some a)
      then show ?thesis
        using True c l by (subst fillMatrix.simps) simp
    qed
  next
    case False
    then show ?thesis by (subst fillMatrix.simps) simp
  qed
qed

lemma dlFunction_length [simp]: "length (snd (dlFunction m s1 s2)) = length m"
proof -
  obtain e1 m1 where c1: "initFirstColumn 0 (length s2 + 1) m = (e1, m1)"
    by (cases "initFirstColumn 0 (length s2 + 1) m")
  obtain e2 m2 where c2: "initFirstRow 0 (length s1 + 1) m1 = (e2, m2)"
    by (cases "initFirstRow 0 (length s1 + 1) m1")
  obtain e3 m3 where c3: "fillMatrix s1 s2 1 m2 = (e3, m3)"
    by (cases "fillMatrix s1 s2 1 m2")
  have l1: "length m1 = length m"
    using initFirstColumn_length [of 0 "length s2 + 1" m] by (simp only: c1 snd_conv)
  have l2: "length m2 = length m1"
    using initFirstRow_length [of 0 "length s1 + 1" m1] by (simp only: c2 snd_conv)
  have l3: "length m3 = length m2"
    using fillMatrix_length [of s1 s2 1 m2] by (simp only: c3 snd_conv)
  show ?thesis
    using c1 c2 c3 l1 l2 l3
    by (simp add: dlFunction_def Let_def split: option.split)
qed

lemma afterCalls_length [simp]: "length (afterCalls m cs) = length m"
  by (induction m cs rule: afterCalls.induct) simp_all


lemma createDLFunction_rows:
  "createDLFunction maxLen = Inr m0 \<Longrightarrow> int (length m0) = effectiveMaxLen maxLen + 1"
  by (auto simp add: createDLFunction_def Let_def split: if_splits)

lemma engine_rows:
  assumes "createDLFunction maxLen = Inr m0" "int (length s) \<le> effectiveMaxLen maxLen"
  shows "length s < length m0"
  using createDLFunction_rows [OF assms(1)] assms(2) by simp

lemma dlFunction_nonempty:
  assumes "s1 \<noteq> []" "s2 \<noteq> []" "length s2 < length m"
  shows "fst (dlFunction m s1 s2) =
      Inr \<lparr>distance = Num (real (dlDistance s1 s2)),
           similarity = Num (1 - real (dlDistance s1 s2) / real (max (length s1) (length s2)))\<rparr>"
  using dlFunction_result [OF assms] by auto

lemma dlFunction_empty:
  "s1 = [] \<or> s2 = [] \<Longrightarrow> dlFunction m s1 s2 =
      (Inr \<lparr>distance = Num (real (max (length s1) (length s2))), similarity = Num 0\<rparr>, m)"
  by (auto simp add: dlFunction_def Let_def)

lemma cellValue_le: "cellValue s1 s2 i j \<le> max i j"
proof (induction s1 s2 i j rule: cellValue.induct)
  case (1 s1 s2 i j)
  show ?case
  proof (cases "i = 0 \<or> j = 0")
    case True
    then show ?thesis by (subst cellValue.simps) auto
  next
    case False
    then have ij: "i \<noteq> 0" "j \<noteq> 0" by auto
    show ?thesis
    proof (cases "charAt s2 (i - 1) = charAt s1 (j - 1)")
      case True
      have "cellValue s1 s2 (i - 1) (j - 1) \<le> max (i - 1) (j - 1)"
        using "1.IH"(1) ij True by simp
      then have "cellValue s1 s2 (i - 1) (j - 1) \<le> max i j" by auto
      then show ?thesis using ij True by (subst cellValue.simps) simp
    next
      case neq: False
      define v where "v = min (min (cellValue s1 s2 (i - 1) (j - 1) + 1) (cellValue s1 s2 i (j - 1) + 1))
                    (cellValue s1 s2 (i - 1) j + 1)"
      have "cellValue s1 s2 (i - 1) (j - 1) \<le> max (i - 1) (j - 1)"
        using "1.IH"(2) ij neq by simp
      then have "cellValue s1 s2 (i - 1) (j - 1) + 1 \<le> max i j" using ij by arith
      moreover have "v \<le> cellValue s1 s2 (i - 1) (j - 1) + 1" unfolding v_def by (rule min.coboundedI1) (rule min.cobounded1)
      ultimately have v: "v \<le> max i j" by (rule order_trans [rotated])
      define w where "w = cellValue s1 s2 (i - 2) (j - 2)"
      have "\<exists>t. cellValue s1 s2 i j = (if t \<and> w < v then w + 1 else v)"
        using ij neq by (subst cellValue.simps) (auto simp add: v_def w_def Let_def)
      then have "cellValue s1 s2 i j \<le> v"
        by (auto split: if_splits)
      then show ?thesis using v by simp
    qed
  qed
qed

lemma dlDistance_le: "dlDistance s1 s2 \<le> max (length s1) (length s2)"
  unfolding dlDistance_def using cellValue_le [of s1 s2 "length s2" "length s1"] by (simp add: max.commute)

lemma dlDistance_ca_abc: "dlDistance ''ca'' ''abc'' = 3"
  by (simp add: dlDistance_def cellValue.simps charAt_def)

lemma dlDistance_ca_ac: "dlDistance ''ca'' ''ac'' = 1"
  by (simp add: dlDistance_def cellValue.simps charAt_def)

lemma dlDistance_ac_abc: "dlDistance ''ac'' ''abc'' = 1"
  by (simp add: dlDistance_def cellValue.simps charAt_def)

lemma cellValue_match:
  assumes "i \<noteq> 0" "i \<le> length s2" "i \<le> length s1" "s2 ! (i - 1) = s1 ! (i - 1)"
  shows "cellValue s1 s2 i i = cellValue s1 s2 (i - 1) (i - 1)"
proof -
  have "i - 1 < length s2" "i - 1 < length s1" using assms(1,2,3) by arith+
  then have c: "charAt s2 (i - 1) = charAt s1 (i - 1)"
    using assms(4) by (simp add: charAt_def)
  show ?thesis
    by (subst cellValue.simps) (simp only: assms(1) c if_False if_True simp_thms)
qed

lemma cellValue_common_prefix:
  "n \<le> length xs \<Longrightarrow> cellValue (xs @ u) (xs @ v) n n = 0"
proof (induction n)
  case 0
  then show ?case by simp
next
  case (Suc n)
  then have "cellValue (xs @ u) (xs @ v) (Suc n) (Suc n) = cellValue (xs @ u) (xs @ v) n n"
    using cellValue_match [of "Suc n" "xs @ v" "xs @ u"] by (simp add: nth_append)
  then show ?case using Suc by simp
qed

lemma cellValue_transposed:
  assumes "a \<noteq> b"
  shows "cellValue (xs @ a # b # ys) (xs @ b # a # ys) (length xs + 2) (length xs + 2) = 1"
proof -
  let ?s1 = "xs @ a # b # ys" and ?s2 = "xs @ b # a # ys" and ?p = "length xs"
  define v where "v = min (min (cellValue ?s1 ?s2 (?p + 1) (?p + 1) + 1) (cellValue ?s1 ?s2 (?p + 2) (?p + 1) + 1))
                    (cellValue ?s1 ?s2 (?p + 1) (?p + 2) + 1)"
  have v: "0 < v" unfolding v_def by simp
  have z: "cellValue ?s1 ?s2 ?p ?p = 0"
    by (rule cellValue_common_prefix) simp
  have c: "charAt ?s2 (?p + 1) = [a]" "charAt ?s1 (?p + 1) = [b]" "charAt ?s1 ?p = [a]" "charAt ?s2 ?p = [b]"
    by (simp_all add: charAt_def nth_append)
  have "cellValue ?s1 ?s2 (?p + 2) (?p + 2)
      = (if cellValue ?s1 ?s2 ?p ?p < v then cellValue ?s1 ?s2 ?p ?p + 1 else v)"
    using assms c by (subst cellValue.simps) (simp add: Let_def v_def)
  then show ?thesis using v z by simp
qed

lemma cellValue_common_suffix:
  assumes "a \<noteq> b"
  shows "k \<le> length ys
    \<Longrightarrow> cellValue (xs @ a # b # ys) (xs @ b # a # ys) (length xs + 2 + k) (length xs + 2 + k) = 1"
proof (induction k)
  case 0
  then show ?case using cellValue_transposed [OF assms] by simp
next
  case (Suc k)
  let ?s1 = "xs @ a # b # ys" and ?s2 = "xs @ b # a # ys"
  have "cellValue ?s1 ?s2 (length xs + 2 + Suc k) (length xs + 2 + Suc k)
      = cellValue ?s1 ?s2 (length xs + 2 + Suc k - 1) (length xs + 2 + Suc k - 1)"
    using Suc.prems by (intro cellValue_match) (simp_all add: nth_append)
  then show ?case using Suc by simp
qed

lemma dlDistance_transposition:
  "a \<noteq> b \<Longrightarrow> dlDistance (xs @ a # b # ys) (xs @ b # a # ys) = 1"
  using cellValue_common_suffix [of a b "length ys" ys xs] by (simp add: dlDistance_def)

lemma engine_call:
  assumes "createDLFunction maxLen = Inr m0" "s1 \<noteq> []" "s2 \<noteq> []"
    "int (length s2) \<le> effectiveMaxLen maxLen"
  shows "fst (dlFunction (afterCalls m0 calls) s1 s2) =
      Inr \<lparr>distance = Num (real (dlDistance s1 s2)),
           similarity = Num (1 - real (dlDistance s1 s2) / real (max (length s1) (length s2)))\<rparr>"
proof -
  have "length s2 < length (afterCalls m0 calls)"
    using engine_rows [OF assms(1) assms(4)] by simp
  then show ?thesis
    using assms(2,3) by (rule dlFunction_nonempty [rotated 2])
qed

lemma createDLFunction_5: "createDLFunction (Some 5) = Inr (replicate 6 (\<lambda>_. Undefined))"
  by (simp add: createDLFunction_def effectiveMaxLen_def)

section \<open>Claims about the edit-distance engine\<close>

text \<open>
  Claim C4. Whatever the engine's matrix holds, a call with an empty \<^verbatim>\<open>s2\<close> returns
  the length of \<^verbatim>\<open>s1\<close> as distance and similarity 0, a call with an empty \<^verbatim>\<open>s1\<close>
  returns the length of \<^verbatim>\<open>s2\<close> and similarity 0, and two empty strings give distance 0
  and similarity 0; the matrix is not touched.
\<close>

theorem dl_zero_length:
  "(s2 = [] \<longrightarrow> dlFunction m s1 s2
       = (Inr \<lparr>distance = Num (real (length s1)), similarity = Num 0\<rparr>, m))
   \<and> (s1 = [] \<longrightarrow> dlFunction m s1 s2
       = (Inr \<lparr>distance = Num (real (length s2)), similarity = Num 0\<rparr>, m))
   \<and> dlFunction m ([] :: 'c list) [] = (Inr \<lparr>distance = Num 0, similarity = Num 0\<rparr>, m)"
  for s1 s2 :: "'c list"
  by (simp add: dlFunction_def Let_def)

theorem dl_zero_length_witness:
  "dlFunction (replicate 6 (\<lambda>_. Undefined)) ''abc'' ''''
       = (Inr \<lparr>distance = Num 3, similarity = Num 0\<rparr>, replicate 6 (\<lambda>_. Undefined))
   \<and> dlFunction (replicate 6 (\<lambda>_. Undefined)) '''' ''ab''
       = (Inr \<lparr>distance = Num 2, similarity = Num 0\<rparr>, replicate 6 (\<lambda>_. Undefined))
   \<and> dlFunction (replicate 6 (\<lambda>_. Undefined)) ([] :: string) []
       = (Inr \<lparr>distance = Num 0, similarity = Num 0\<rparr>, replicate 6 (\<lambda>_. Undefined))"
  using dl_zero_length [of "''''" "replicate 6 (\<lambda>_. Undefined)" "''abc''"]
    dl_zero_length [of "''ab''" "replicate 6 (\<lambda>_. Undefined)" "''''"]
  by simp

text \<open>
  Claim C3. On every engine, after any calls, two strings within capacity that differ
  by one swap of two adjacent, different characters are at distance 1: the adjacent
  transposition counts once, as for \<^verbatim>\<open>"ab"\<close> and \<^verbatim>\<open>"ba"\<close>.
\<close>

theorem dl_transposition:
  assumes "createDLFunction maxLen = Inr m0"
    and "int (length xs + length ys + 2) \<le> effectiveMaxLen maxLen"
    and "a \<noteq> b"
  shows "fst (dlFunction (afterCalls m0 calls) (xs @ a # b # ys) (xs @ b # a # ys))
           = Inr \<lparr>distance = Num 1,
                  similarity = Num (1 - 1 / real (length xs + length ys + 2))\<rparr>"
  using engine_call [OF assms(1), of "xs @ a # b # ys" "xs @ b # a # ys" calls] assms(2)
  by (simp add: dlDistance_transposition [OF assms(3)])

theorem dl_transposition_witness:
  "fst (dlFunction (afterCalls (replicate 6 (\<lambda>_. Undefined)) [(''kitten'', ''sit'')]) ''ab'' ''ba'')
     = Inr \<lparr>distance = Num 1, similarity = Num (1 / 2)\<rparr>"
  using dl_transposition [OF createDLFunction_5, of "[]" "[]" "CHR ''a''" "CHR ''b''"
      "[(''kitten'', ''sit'')]"]
  by (simp add: effectiveMaxLen_def)

text \<open>
  Two edits of the kind the source documents transform \<^verbatim>\<open>"ca"\<close> into
  \<^verbatim>\<open>"abc"\<close>: transpose the two characters, then insert \<^verbatim>\<open>"b"\<close> between them.
\<close>

lemma ca_abc_two_edits: "oneEdit ''ca'' ''ac'' \<and> oneEdit ''ac'' ''abc''"
  using oneEdit.transposition [of "[]" "CHR ''c''" "CHR ''a''" "[]"]
    oneEdit.insertion [of "''a''" "''c''" "CHR ''b''"]
  by simp

text \<open>
  Claim C1 says that an engine created with \<^verbatim>\<open>maxLen >= 5\<close> returns distance 2 for
  \<^verbatim>\<open>"ca"\<close> and \<^verbatim>\<open>"abc"\<close>. Every such engine, after any calls, returns 3: the
  fill never combines a transposition with an edit between the transposed characters.
\<close>

theorem dl_ca_abc:
  assumes "createDLFunction (Some n) = Inr m0" and "5 \<le> n"
  shows "fst (dlFunction (afterCalls m0 calls) ''ca'' ''abc'')
           = Inr \<lparr>distance = Num 3, similarity = Num 0\<rparr>"
  using engine_call [OF assms(1), of "''ca''" "''abc''" calls] assms(2)
  by (simp add: dlDistance_ca_abc effectiveMaxLen_def)

theorem dl_ca_abc_witness:
  "fst (dlFunction (afterCalls (replicate 6 (\<lambda>_. Undefined)) []) ''ca'' ''abc'')
     = Inr \<lparr>distance = Num 3, similarity = Num 0\<rparr>"
  using dl_ca_abc [OF createDLFunction_5, of "[]"] by simp

text \<open>
  Claim C2 states the triangle inequality for the returned distances. On every engine
  with room for three characters the distance from \<^verbatim>\<open>"ca"\<close> to \<^verbatim>\<open>"abc"\<close> is 3,
  while the distances from \<^verbatim>\<open>"ca"\<close> to \<^verbatim>\<open>"ac"\<close> and from \<^verbatim>\<open>"ac"\<close> to
  \<^verbatim>\<open>"abc"\<close> are 1 each.
\<close>

theorem dl_triangle_violated:
  assumes "createDLFunction maxLen = Inr m0" and "3 \<le> effectiveMaxLen maxLen"
  shows "fst (dlFunction (afterCalls m0 calls) ''ca'' ''abc'')
           = Inr \<lparr>distance = Num 3, similarity = Num 0\<rparr>
       \<and> fst (dlFunction (afterCalls m0 calls) ''ca'' ''ac'')
           = Inr \<lparr>distance = Num 1, similarity = Num (1 / 2)\<rparr>
       \<and> fst (dlFunction (afterCalls m0 calls) ''ac'' ''abc'')
           = Inr \<lparr>distance = Num 1, similarity = Num (2 / 3)\<rparr>"
  using engine_call [OF assms(1), of "''ca''" "''abc''" calls]
    engine_call [OF assms(1), of "''ca''" "''ac''" calls]
    engine_call [OF assms(1), of "''ac''" "''abc''" calls] assms(2)
  by (simp add: dlDistance_ca_abc dlDistance_ca_ac dlDistance_ac_abc)

theorem dl_triangle_violated_witness:
  "fst (dlFunction (replicate 6 (\<lambda>_. Undefined)) ''ca'' ''abc'')
           = Inr \<lparr>distance = Num 3, similarity = Num 0\<rparr>
       \<and> fst (dlFunction (replicate 6 (\<lambda>_. Undefined)) ''ca'' ''ac'')
           = Inr \<lparr>distance = Num 1, similarity = Num (1 / 2)\<rparr>
       \<and> fst (dlFunction (replicate 6 (\<lambda>_. Undefined)) ''ac'' ''abc'')
           = Inr \<lparr>distance = Num 1, similarity = Num (2 / 3)\<rparr>"
  using dl_triangle_violated [OF createDLFunction_5, of "[]"]
  by (simp add: effectiveMaxLen_def)

text \<open>
  Claim C9. For inputs within the engine's capacity, after any calls, the call returns
  (it does not throw), the distance is a natural number no greater than the longer
  length, and the similarity lies between 0 and 1.
\<close>

theorem dl_distance_bounded:
  assumes "createDLFunction maxLen = Inr m0"
    and "int (length s1) \<le> effectiveMaxLen maxLen" and "int (length s2) \<le> effectiveMaxLen maxLen"
  shows "\<exists>(d::nat) sim. fst (dlFunction (afterCalls m0 calls) s1 s2)
             = Inr \<lparr>distance = Num (real d), similarity = Num sim\<rparr>
           \<and> d \<le> max (length s1) (length s2) \<and> 0 \<le> sim \<and> sim \<le> 1"
proof (cases "s1 = [] \<or> s2 = []")
  case True
  have "fst (dlFunction (afterCalls m0 calls) s1 s2)
      = Inr \<lparr>distance = Num (real (max (length s1) (length s2))), similarity = Num 0\<rparr>"
    using dlFunction_empty [OF True] by simp
  then show ?thesis by (intro exI [of _ "max (length s1) (length s2)"] exI [of _ 0]) simp
next
  case False
  then have ne: "s1 \<noteq> []" "s2 \<noteq> []" by auto
  let ?d = "dlDistance s1 s2" and ?n = "max (length s1) (length s2)"
  have le: "?d \<le> ?n" by (rule dlDistance_le)
  have pos: "0 < ?n" using ne(1) by (cases s1) auto
  have "real ?d / real ?n \<le> 1" using le pos by simp
  moreover have "0 \<le> real ?d / real ?n" by simp
  ultimately have "0 \<le> 1 - real ?d / real ?n \<and> 1 - real ?d / real ?n \<le> 1" by linarith
  then show ?thesis
    using engine_call [OF assms(1) ne assms(3), of calls] le
    by (intro exI [of _ ?d] exI [of _ "1 - real ?d / real ?n"]) simp
qed

theorem dl_distance_bounded_witness:
  "\<exists>(d::nat) sim. fst (dlFunction (afterCalls (replicate 6 (\<lambda>_. Undefined)) [(''abcdefgh'', ''xyz'')]) ''kitt'' ''sit'')
             = Inr \<lparr>distance = Num (real d), similarity = Num sim\<rparr>
           \<and> d \<le> max (length ''kitt'') (length ''sit'') \<and> 0 \<le> sim \<and> sim \<le> 1"
  using dl_distance_bounded [OF createDLFunction_5, of "''kitt''" "''sit''" "[(''abcdefgh'', ''xyz'')]"]
  by (simp add: effectiveMaxLen_def)

text \<open>
  Claim C10. For inputs within the engine's capacity, the result of a call is the same
  after any history of calls as on the fresh engine, and the same on a matrix of the
  engine's shape with arbitrary contents: no cell left by an earlier call is read before
  the call has written it.
\<close>

theorem dl_observationally_pure:
  assumes "createDLFunction maxLen = Inr m0"
    and "int (length s1) \<le> effectiveMaxLen maxLen" and "int (length s2) \<le> effectiveMaxLen maxLen"
    and "length m = length m0"
  shows "fst (dlFunction (afterCalls m0 calls) s1 s2) = fst (dlFunction m0 s1 s2)
       \<and> fst (dlFunction m s1 s2) = fst (dlFunction m0 s1 s2)"
proof (cases "s1 = [] \<or> s2 = []")
  case True
  show ?thesis by (simp add: dlFunction_empty [OF True])
next
  case False
  then have ne: "s1 \<noteq> []" "s2 \<noteq> []" by auto
  have r: "length s2 < length m0" by (rule engine_rows [OF assms(1,3)])
  have "fst (dlFunction (afterCalls m0 calls) s1 s2) = fst (dlFunction m0 s1 s2)"
    using r by (simp add: dlFunction_nonempty [OF ne])
  moreover have "fst (dlFunction m s1 s2) = fst (dlFunction m0 s1 s2)"
    using r assms(4) by (simp add: dlFunction_nonempty [OF ne])
  ultimately show ?thesis by simp
qed

theorem dl_observationally_pure_witness:
  "fst (dlFunction (afterCalls (replicate 6 (\<lambda>_. Undefined))
          [(''kitten'', ''sitting''), (''abc'', ''ca'')]) ''ca'' ''abc'')
     = fst (dlFunction (replicate 6 (\<lambda>_. Undefined)) ''ca'' ''abc'')
   \<and> fst (dlFunction (replicate 6 (\<lambda>_. NaN)) ''ca'' ''abc'')
     = fst (dlFunction (replicate 6 (\<lambda>_. Undefined)) ''ca'' ''abc'')"
  using dl_observationally_pure [OF createDLFunction_5, of "''ca''" "''abc''"
      "replicate 6 (\<lambda>_. NaN)" "[(''kitten'', ''sitting''), (''abc'', ''ca'')]"]
  by (simp add: effectiveMaxLen_def)

section \<open>Claims about the set metrics\<close>

lemma fold_count:
  "fold (\<lambda>element n. if P element then n + 1 else n) xs (k::nat) = k + length (filter P xs)"
  by (induction xs arbitrary: k) auto

lemma intersect_count:
  "Dlist.fold (\<lambda>element n. if Dlist.member sb element then n + 1 else n) sa (0::nat)
     = card (elements sa \<inter> elements sb)"
proof -
  have "{x. x \<in> set (list_of_dlist sb)} \<inter> set (list_of_dlist sa)
      = set (list_of_dlist sa) \<inter> set (list_of_dlist sb)"
    by auto
  then show ?thesis
    by (simp add: Dlist.fold_def Dlist.member_def fold_count
        distinct_length_filter elements_def)
qed

lemma intersectSize_eq:
  "(if c
    then Dlist.fold (\<lambda>element n. if Dlist.member sb element then n + 1 else n) sa (0::nat)
    else Dlist.fold (\<lambda>element n. if Dlist.member sa element then n + 1 else n) sb 0)
   = card (elements sa \<inter> elements sb)"
  by (simp add: intersect_count Int_commute)

lemma size_eq: "Dlist.length s = card (elements s)"
  by (simp add: Dlist.length_def elements_def distinct_card)

text \<open>
  Claim C7. For two sets that are not both empty, \<^verbatim>\<open>tversky\<close> with both weights 1
  returns what \<^verbatim>\<open>jaccard\<close> returns, and with both weights omitted it is
  \<^verbatim>\<open>tversky\<close> with both weights 0.5, whose similarity is the Dice coefficient
  \<open>2 |A \<inter> B| / (|A| + |B|)\<close>.
\<close>

theorem tversky_jaccard_dice:
  assumes "\<not> (Dlist.null sa \<and> Dlist.null sb)"
  shows "tversky sa sb (Some 1) (Some 1) = jaccard sa sb
       \<and> tversky sa sb None None = tversky sa sb (Some (1 / 2)) (Some (1 / 2))
       \<and> similarity (tversky sa sb None None)
           = Num (2 * real (card (elements sa \<inter> elements sb))
                    / (real (card (elements sa)) + real (card (elements sb))))"
proof -
  let ?i = "real (card (elements sa \<inter> elements sb))"
  let ?a = "real (card (elements sa))" and ?b = "real (card (elements sb))"
  have pos: "0 < ?a + ?b"
    using assms by (auto simp add: Dlist.null_def elements_def card_gt_0_iff add_pos_nonneg add_nonneg_pos)
  have j: "?i + 1 * (?a - ?i) + 1 * (?b - ?i) = ?a + ?b - ?i" by simp
  have d: "?i + 1 / 2 * (?a - ?i) + 1 / 2 * (?b - ?i) = (?a + ?b) / 2" by (simp add: field_simps)
  have 1: "tversky sa sb (Some 1) (Some 1) = jaccard sa sb"
    unfolding tversky_def jaccard_def intersectSize_eq size_eq Let_def option.case j
    by (rule refl)
  have 2: "tversky sa sb None None = tversky sa sb (Some (1 / 2)) (Some (1 / 2))"
    by (simp add: tversky_def)
  have 3: "similarity (tversky sa sb None None) = Num (2 * ?i / (?a + ?b))"
    using pos unfolding tversky_def intersectSize_eq size_eq Let_def option.case d
    by simp
  show ?thesis using 1 2 3 by simp
qed

theorem tversky_jaccard_dice_witness:
  "tversky (Dlist [1, 2, 3 :: nat]) (Dlist [2, 3, 4 :: nat]) (Some 1) (Some 1)
       = jaccard (Dlist [1, 2, 3 :: nat]) (Dlist [2, 3, 4 :: nat])
   \<and> jaccard (Dlist [1, 2, 3 :: nat]) (Dlist [2, 3, 4 :: nat])
       = \<lparr>distance = Num (1 / 2), similarity = Num (1 / 2)\<rparr>
   \<and> tversky (Dlist [1, 2, 3 :: nat]) (Dlist [2, 3, 4 :: nat]) None None
       = tversky (Dlist [1, 2, 3 :: nat]) (Dlist [2, 3, 4 :: nat]) (Some (1 / 2)) (Some (1 / 2))
   \<and> similarity (tversky (Dlist [1, 2, 3 :: nat]) (Dlist [2, 3, 4 :: nat]) None None) = Num (2 / 3)"
proof -
  have e: "elements (Dlist [1, 2, 3 :: nat]) \<inter> elements (Dlist [2, 3, 4]) = {2, 3}"
    by (auto simp add: elements_def)
  have n: "\<not> (Dlist.null (Dlist [1, 2, 3 :: nat]) \<and> Dlist.null (Dlist [2, 3, 4 :: nat]))"
    by (simp add: Dlist.null_def)
  have j: "jaccard (Dlist [1, 2, 3 :: nat]) (Dlist [2, 3, 4]) = \<lparr>distance = Num (1 / 2), similarity = Num (1 / 2)\<rparr>"
    by (simp add: jaccard_def Dlist.length_def Dlist.fold_def Dlist.member_def js_sub_def Let_def)
  note t = tversky_jaccard_dice [OF n]
  have d: "similarity (tversky (Dlist [1, 2, 3 :: nat]) (Dlist [2, 3, 4 :: nat]) None None) = Num (2 / 3)"
    unfolding conjunct2 [OF conjunct2 [OF t]] e by (simp add: elements_def)
  show ?thesis
    by (intro conjI) (rule conjunct1 [OF t], rule j, rule conjunct1 [OF conjunct2 [OF t]], rule d)
qed

section \<open>Claims about Jaro-Winkler\<close>

lemma prefixLoop_count:
  "pLimit \<le> length s1 \<Longrightarrow> pLimit \<le> length s2 \<Longrightarrow> i \<le> pLimit
     \<Longrightarrow> prefixLoop s1 s2 pLimit i l
         = l + length (takeWhile (\<lambda>(x, y). x = y) (take (pLimit - i) (drop i (zip s1 s2))))"
proof (induction s1 s2 pLimit i l rule: prefixLoop.induct)
  case (1 s1 s2 pLimit i l)
  show ?case
  proof (cases "i < pLimit")
    case True
    then have len: "i < length s1" "i < length s2" using "1.prems" by auto
    then have d: "drop i (zip s1 s2) = (s1 ! i, s2 ! i) # drop (Suc i) (zip s1 s2)"
      by (simp add: Cons_nth_drop_Suc [symmetric])
    have t: "pLimit - i = Suc (pLimit - Suc i)" using True by simp
    show ?thesis
    proof (cases "s1 ! i = s2 ! i")
      case eq: True
      have "prefixLoop s1 s2 pLimit (i + 1) (l + 1)
         = (l + 1) + length (takeWhile (\<lambda>(x, y). x = y) (take (pLimit - (i + 1)) (drop (i + 1) (zip s1 s2))))"
        using "1.IH" True eq len "1.prems" by (simp add: charIndex_def)
      then show ?thesis
        using True eq len by (subst prefixLoop.simps) (simp add: charIndex_def d t)
    next
      case False
      then show ?thesis
        using True len by (subst prefixLoop.simps) (simp add: charIndex_def d t)
    qed
  next
    case False
    then show ?thesis using "1.prems" by (subst prefixLoop.simps) simp
  qed
qed

lemma prefixLoop_spec:
  "prefixLoop s1 s2 (min (min (length s1) (length s2)) 4) 0 0 = specPrefixLength s1 s2"
proof -
  have "take (min (min (length s1) (length s2)) 4) (zip s1 s2) = take 4 (zip s1 s2)"
    by (simp add: min.commute take_all_iff min_def)
  then show ?thesis
    using prefixLoop_count [of "min (min (length s1) (length s2)) 4" s1 s2 0 0]
    by (simp add: specPrefixLength_def)
qed

lemma specScalingFactor_eq:
  "specScalingFactor sf
     = js_min (js_abs (if sf = Undefined then Num (1 / 10) else sf)) (Num (1 / 4))"
  by (cases sf) (simp_all add: specScalingFactor_def js_min_def Let_def)

lemma specBoostThreshold_eq:
  "specBoostThreshold bt
     = js_min (js_abs (if bt = Undefined then Num (7 / 10) else bt)) (Num 1)"
  by (cases bt) (simp_all add: specBoostThreshold_def js_min_def Let_def)

text \<open>
  Claim C5. For different strings whose base Jaro similarity is at least the
  normalised threshold, \<^verbatim>\<open>jaroWinkler\<close> returns the base similarity plus
  \<open>l * sf * (1 - base)\<close> and 1 minus that as distance, with \<open>l\<close>, \<open>sf\<close> and the
  threshold as the specification words them, for all values of the two tunables.
\<close>

theorem jaroWinkler_boost:
  assumes "s1 \<noteq> s2"
    and "js_ge (similarity (jaro s1 s2)) (specBoostThreshold boostThreshold)"
  shows "jaroWinkler jaro s1 s2 scalingFactor boostThreshold =
     (let base = similarity (jaro s1 s2);
          boosted = js_add base
                      (js_mul (js_mul (Num (real (specPrefixLength s1 s2)))
                                      (specScalingFactor scalingFactor))
                              (js_sub (Num 1) base))
      in \<lparr>distance = js_sub (Num 1) boosted, similarity = boosted\<rparr>)"
proof -
  have bt: "\<not> js_lt (similarity (jaro s1 s2))
      (js_min (js_abs (if boostThreshold = Undefined then Num (7 / 10) else boostThreshold)) (Num 1))"
    using assms(2) unfolding specBoostThreshold_eq js_ge_def by (elim conjE)
  show ?thesis
    unfolding jaroWinkler_def Let_def prefixLoop_spec specScalingFactor_eq
    by (simp only: assms(1) bt if_False)
qed

theorem jaroWinkler_boost_witness:
  "jaroWinkler (\<lambda>_ _. \<lparr>distance = Num (1 / 18), similarity = Num (17 / 18)\<rparr>)
       ''MARTHA'' ''MARHTA'' Undefined (Num (- 9 / 10))
     = \<lparr>distance = Num (7 / 180), similarity = Num (173 / 180)\<rparr>
   \<and> jaroWinkler (\<lambda>_ _. \<lparr>distance = Num (1 / 18), similarity = Num (17 / 18)\<rparr>)
       ''MARTHA'' ''MARHTA'' NegInf (Num (1 / 2))
     = \<lparr>distance = Num (1 / 72), similarity = Num (71 / 72)\<rparr>"
  using jaroWinkler_boost [of "''MARTHA''" "''MARHTA''"
      "\<lambda>_ _. \<lparr>distance = Num (1 / 18), similarity = Num (17 / 18)\<rparr>" "Num (- 9 / 10)" Undefined]
    jaroWinkler_boost [of "''MARTHA''" "''MARHTA''"
      "\<lambda>_ _. \<lparr>distance = Num (1 / 18), similarity = Num (17 / 18)\<rparr>" "Num (1 / 2)" NegInf]
  by (simp add: specPrefixLength_def specScalingFactor_def specBoostThreshold_def Let_def
      js_ge_def js_sub_def)

text \<open>
  Claim C6 says the similarity \<^verbatim>\<open>jaroWinkler\<close> returns is never below a base
  similarity in \<open>[0, 1]\<close>, for every choice of parameters. It fails for a
  \<^verbatim>\<open>NaN\<close> scaling factor, which passes the default, \<^verbatim>\<open>Math.abs\<close> and the cap
  unchanged: the boosted similarity is \<^verbatim>\<open>NaN\<close>, which is not at least the base.
\<close>

theorem jaroWinkler_nan_scaling:
  "similarity (jaroWinkler (\<lambda>_ _. \<lparr>distance = Num (1 / 18), similarity = Num (17 / 18)\<rparr>)
       ''MARTHA'' ''MARHTA'' NaN Undefined) = NaN
   \<and> \<not> js_ge (similarity (jaroWinkler (\<lambda>_ _. \<lparr>distance = Num (1 / 18), similarity = Num (17 / 18)\<rparr>)
                 ''MARTHA'' ''MARHTA'' NaN Undefined))
             (Num (17 / 18))"
  by (simp add: jaroWinkler_def Let_def js_min_def js_ge_def)

text \<open>
  Claim C6, amended. With a base Jaro similarity in \<open>[0, 1]\<close> and a scaling factor
  that is omitted or any number but \<^verbatim>\<open>NaN\<close> (the infinities included), whatever the
  strings and the boost threshold (\<^verbatim>\<open>NaN\<close> included), the similarity
  \<^verbatim>\<open>jaroWinkler\<close> returns is a number and at least the base.
\<close>

theorem jaroWinkler_ge_base:
  assumes "similarity (jaro s1 s2) = Num base" and "0 \<le> base" and "base \<le> 1"
    and "scalingFactor \<noteq> NaN"
  shows "\<exists>s. similarity (jaroWinkler jaro s1 s2 scalingFactor boostThreshold) = Num s
             \<and> base \<le> s"
proof -
  let ?sf = "js_min (js_abs (if scalingFactor = Undefined then Num (1 / 10) else scalingFactor))
      (Num (1 / 4))"
  have "case ?sf of Num sf \<Rightarrow> 0 \<le> sf | _ \<Rightarrow> False"
    using assms(4) by (cases scalingFactor) (simp_all add: js_min_def)
  then obtain sf where sf: "?sf = Num sf" "0 \<le> sf"
    by (cases ?sf) simp_all
  have "0 \<le> real l * sf * (1 - base)" for l
    using sf(2) assms(3) by simp
  then show ?thesis
    using assms(1,3) by (auto simp add: jaroWinkler_def Let_def sf(1) js_sub_def)
qed

theorem jaroWinkler_ge_base_witness:
  "\<exists>s. similarity (jaroWinkler (\<lambda>_ _. \<lparr>distance = Num (1 / 18), similarity = Num (17 / 18)\<rparr>)
        ''MARTHA'' ''MARHTA'' PosInf NaN) = Num s \<and> 17 / 18 \<le> s"
  using jaroWinkler_ge_base [of "\<lambda>_ _. \<lparr>distance = Num (1 / 18), similarity = Num (17 / 18)\<rparr>"
      "''MARTHA''" "''MARHTA''" "17 / 18" PosInf NaN]
  by simp

section \<open>Claims about the cosine metric\<close>

lemma pow_bounds:
  "(2::real) ^ 1023 \<le> 2 ^ 1024 - 2 ^ 970"
  "(1::real) / 2 ^ 1075 < 1 / 2 ^ 1074"
  "(1::real) / 2 ^ 537 * (1 / 2 ^ 537) = 1 / 2 ^ 1074"
proof -
  have "(2::real) ^ 970 \<le> 2 ^ 1023" by (rule power_increasing) simp_all
  moreover have "(2::real) ^ 1024 = 2 * 2 ^ 1023" by (simp add: power_Suc [symmetric] del: power_Suc)
  ultimately show "(2::real) ^ 1023 \<le> 2 ^ 1024 - 2 ^ 970" by linarith
  have "(2::real) ^ 1074 < 2 ^ 1075" by (rule power_strict_increasing) simp_all
  then show "(1::real) / 2 ^ 1075 < 1 / 2 ^ 1074" by (simp add: frac_less2)
  have "(2::real) ^ 537 * 2 ^ 537 = 2 ^ 1074" by (simp add: power_add [symmetric])
  then show "(1::real) / 2 ^ 537 * (1 / 2 ^ 537) = 1 / 2 ^ 1074" by simp
qed


lemma productFloor_pos: "0 < productFloor"
  by (simp add: productFloor_def)


lemma numericWeights_entry:
  assumes "numericWeights a" "map_of a w = Some v"
  shows "\<exists>r. v = Num r \<and> weightInRange r"
proof -
  have "(w, v) \<in> set a" using assms(2) by (rule map_of_SomeD)
  then show ?thesis
    using assms(1) unfolding numericWeights_def list_all_iff by (cases v) auto
qed



lemma weight_inRange:
  assumes "numericWeights a"
  shows "weightInRange (weight a w)"
proof (cases "map_of a w")
  case None
  then show ?thesis by (simp add: weight_def weightInRange_def)
next
  case (Some v)
  obtain r where "v = Num r" "weightInRange r"
    using numericWeights_entry [OF assms Some] by blast
  then show ?thesis using Some by (simp add: weight_def)
qed






lemma product_inRange:
  assumes "weightInRange u" "weightInRange v"
  shows "0 \<le> u * v \<and> (u * v = 0 \<or> productFloor \<le> u * v)"
proof (cases "u = 0 \<or> v = 0")
  case True
  then show ?thesis by auto
next
  case False
  then have u: "1 / 2 ^ 537 \<le> u" and v: "1 / 2 ^ 537 \<le> v"
    using assms by (auto simp add: weightInRange_def)
  have "1 / 2 ^ 537 * (1 / 2 ^ 537) \<le> u * v"
    using u v by (intro mult_mono) simp_all
  then have "productFloor \<le> u * v" by (simp only: pow_bounds(3) productFloor_def)
  then show ?thesis using productFloor_pos by linarith
qed




lemma sum_floor:
  assumes "finite K" "\<forall>w\<in>K. 0 \<le> t w \<and> (t w = 0 \<or> productFloor \<le> t w)"
  shows "0 \<le> sum t K \<and> (sum t K = 0 \<or> productFloor \<le> sum t K)"
  using assms
proof (induction K rule: finite_induct)
  case empty
  then show ?case by simp
next
  case (insert w K)
  then have "0 \<le> sum t K \<and> (sum t K = 0 \<or> productFloor \<le> sum t K)"
    and "0 \<le> t w \<and> (t w = 0 \<or> productFloor \<le> t w)" by auto
  then have "0 \<le> t w + sum t K \<and> (t w + sum t K = 0 \<or> productFloor \<le> t w + sum t K)"
    by linarith
  then show ?case using insert.hyps by simp
qed







lemma dotProduct_floor:
  assumes "numericWeights a" "numericWeights b"
  shows "0 \<le> dotProduct a b \<and> (dotProduct a b = 0 \<or> productFloor \<le> dotProduct a b)"
  unfolding dotProduct_def
proof (rule sum_floor)
  show "finite (fst ` set a \<union> fst ` set b)" by simp
  show "\<forall>w\<in>fst ` set a \<union> fst ` set b. 0 \<le> weight a w * weight b w
      \<and> (weight a w * weight b w = 0 \<or> productFloor \<le> weight a w * weight b w)"
    using product_inRange [OF weight_inRange [OF assms(1)] weight_inRange [OF assms(2)]] by blast
qed






end
